theory Spec2Isabelle
  imports Main "HOL-Library.Sublist"
begin

section \<open>Rule L006: operators should be surrounded by a single whitespace\<close>

text \<open>
  A shallow embedding of \<^verbatim>\<open>Rule_L006._eval\<close>
  (\<^verbatim>\<open>src/sqlfluff/core/rules/std/L006.py\<close>). The rule looks at the direct
  children of one segment of the syntax tree and reports operators that have a
  neighbour but no whitespace between them and that neighbour.
\<close>

subsection \<open>Segments\<close>

text \<open>
  Modelled from the spec: the segment classes belong to the parser and are not part of the
  rule's file. A segment has the attributes that \<^verbatim>\<open>_eval\<close> reads: its
  \<^verbatim>\<open>name\<close>, the type tags that \<^verbatim>\<open>is_type\<close> answers for, the flags
  \<^verbatim>\<open>is_whitespace\<close>, \<^verbatim>\<open>is_code\<close> and \<^verbatim>\<open>is_meta\<close>, the texts
  \<^verbatim>\<open>raw\<close> and \<^verbatim>\<open>source_str\<close>, the position marker (opaque, hence a type
  parameter) and the child segments. The rule reads \<^verbatim>\<open>source_str\<close> of meta
  segments only. Strings are byte strings here; Python slices count code points, which is
  the same on ASCII text.
\<close>

datatype 'p segment = Segment
  (name: string)
  (type_tags: "string list")
  (is_whitespace: bool)
  (is_code: bool)
  (is_meta: bool)
  (raw: string)
  (source_str: string)
  (pos_marker: 'p)
  (segments: "'p segment list")

definition is_type :: "'p segment \<Rightarrow> string \<Rightarrow> bool" where
  "is_type seg t = (t \<in> set (type_tags seg))"

text \<open>Python's \<^verbatim>\<open>str.startswith\<close> and \<^verbatim>\<open>str.endswith\<close>.\<close>

definition startswith :: "string \<Rightarrow> string \<Rightarrow> bool" where
  "startswith s p = prefix p s"

definition endswith :: "string \<Rightarrow> string \<Rightarrow> bool" where
  "endswith s p = prefix (rev p) (rev s)"

text \<open>
  Modelled from the spec: \<^verbatim>\<open>BaseSegment.iter_raw_seg\<close> is not part of the rule's
  file. The spec describes it as the depth-first leaf iterator that yields only the leaf
  segments of a subtree, in left-to-right order; a leaf is a segment without children.
\<close>

fun iter_raw_seg :: "'p segment \<Rightarrow> 'p segment list" where
  "iter_raw_seg (Segment nm tys ws cd mt rw src pos subs) =
     (if subs = [] then [Segment nm tys ws cd mt rw src pos subs]
      else concat (map iter_raw_seg subs))"

text \<open>
  Modelled from the spec: \<^verbatim>\<open>BaseRule.make_whitespace\<close> is not part of the rule's
  file. Given a raw text and a position it builds a new leaf segment with
  \<^verbatim>\<open>is_whitespace\<close> true, \<^verbatim>\<open>is_code\<close> false and \<^verbatim>\<open>is_meta\<close>
  false; name and type tag are \<^verbatim>\<open>whitespace\<close>.
\<close>

definition make_whitespace :: "string \<Rightarrow> 'p \<Rightarrow> 'p segment" where
  "make_whitespace rw pos =
     Segment ''whitespace'' [''whitespace''] True False False rw [] pos []"

subsection \<open>The target matcher\<close>

text \<open>The class attribute \<^verbatim>\<open>_target_elems\<close>.\<close>

definition target_elems :: "(string \<times> string) list" where
  "target_elems = [(''type'', ''binary_operator''), (''type'', ''comparison_operator'')]"

text \<open>
  Modelled from the spec: \<^verbatim>\<open>BaseRule.matches_target_tuples\<close> is not part of the
  rule's file. The spec takes as operator of interest a segment that matches the pair
  (\<^verbatim>\<open>type\<close>, \<^verbatim>\<open>binary_operator\<close>) or the pair (\<^verbatim>\<open>type\<close>,
  \<^verbatim>\<open>comparison_operator\<close>): a segment matches a list of pairs when it matches one
  of them, a \<^verbatim>\<open>type\<close> pair when the value is among its type tags, a
  \<^verbatim>\<open>name\<close> pair when the value is its name.
\<close>

definition matches_target_tuples :: "'p segment \<Rightarrow> (string \<times> string) list \<Rightarrow> bool" where
  "matches_target_tuples seg target_tuples =
     (name seg \<in> set (map snd (filter (\<lambda>elem. fst elem = ''name'') target_tuples))
      \<or> list_ex (is_type seg) (map snd (filter (\<lambda>elem. fst elem = ''type'') target_tuples)))"

subsection \<open>Results\<close>

text \<open>
  Modelled from the spec: the classes \<^verbatim>\<open>LintFix\<close> and \<^verbatim>\<open>LintResult\<close> are
  not part of the rule's file. The records have the fields that \<^verbatim>\<open>_eval\<close> sets:
  a fix has its kind, its anchor and the new segment; a result has its anchor, its
  description and its fixes.
\<close>

record 'p lint_fix =
  edit_type :: string
  fix_anchor :: "'p segment"
  edit :: "'p segment"

record 'p lint_result =
  anchor :: "'p segment option"
  description :: "string option"
  lint_fixes :: "'p lint_fix list"

text \<open>\<^verbatim>\<open>LintResult()\<close>: no anchor, no description, no fixes (the field \<^verbatim>\<open>fixes\<close> is
  \<^verbatim>\<open>lint_fixes\<close> here).\<close>

definition empty_result :: "'p lint_result" where
  "empty_result = \<lparr>anchor = None, description = None, lint_fixes = []\<rparr>"

text \<open>
  \<^verbatim>\<open>_eval\<close> leaves in three ways: with \<^verbatim>\<open>LintResult()\<close>, with the
  non-empty list of violations, or by falling off its end (\<^verbatim>\<open>None\<close>).
\<close>

datatype 'p eval_return =
  ReturnNone
| ReturnResult "'p lint_result"
| ReturnList "'p lint_result list"

subsection \<open>The checks on one child\<close>

text \<open>The four locals set at the top of the loop body (lines 64 to 104).\<close>

record 'p locals =
  check_before :: bool
  check_after :: bool
  before_anchor :: "'p segment"
  after_anchor :: "'p segment"

definition find_targets :: "'p segment \<Rightarrow> 'p locals" where
  "find_targets sub_seg =
     (let st = \<lparr>check_before = False, check_after = False,
                before_anchor = sub_seg, after_anchor = sub_seg\<rparr>
      in if matches_target_tuples sub_seg target_elems
         then st\<lparr>check_before := True, check_after := True\<rparr>
         else if segments sub_seg \<noteq> [] then
           (let raw_list = iter_raw_seg sub_seg
            in if length raw_list > 1 then
                 (let leading = hd raw_list;
                      trailing = last raw_list;
                      st1 = (if matches_target_tuples leading target_elems
                             then st\<lparr>before_anchor := leading, check_before := True\<rparr>
                             else st);
                      st2 = (if matches_target_tuples trailing target_elems
                             then st1\<lparr>after_anchor := trailing, check_after := True\<rparr>
                             else st1)
                  in st2)
               else st)
         else st)"

text \<open>
  The backwards scan of lines 107 to 115: \<^verbatim>\<open>j\<close> starts at \<^verbatim>\<open>idx - 1\<close> and
  runs while \<^verbatim>\<open>j >= 0\<close>. The argument here is \<^verbatim>\<open>j + 1\<close>, so that it stays a
  natural number.
\<close>

fun scan_prev :: "'p segment list \<Rightarrow> nat \<Rightarrow> 'p segment option" where
  "scan_prev segs 0 = None"
| "scan_prev segs (Suc j) =
     (if is_type (segs ! j) ''indent'' then scan_prev segs j else Some (segs ! j))"

text \<open>The forwards scan of lines 162 to 170, called with \<^verbatim>\<open>j = idx + 1\<close>.\<close>

function scan_next :: "'p segment list \<Rightarrow> nat \<Rightarrow> 'p segment option" where
  "scan_next segs j =
     (if j < length segs
      then (if is_type (segs ! j) ''indent'' then scan_next segs (j + 1) else Some (segs ! j))
      else None)"
  by pat_completeness auto
termination
  by (relation "measure (\<lambda>(segs, j). length segs - j)") auto

text \<open>
  The conditions of lines 117 to 136 and 172 to 191. A segment object is always true in
  Python, so \<^verbatim>\<open>prev_seg and ...\<close> asks that the scan has found a segment.
\<close>

definition before_gap :: "'p segment option \<Rightarrow> bool" where
  "before_gap prev_seg =
     (case prev_seg of
        None \<Rightarrow> False
      | Some p \<Rightarrow>
          \<not> is_whitespace p
          \<and> \<not> (endswith (name p) ''_bracket'' \<and> startswith (name p) ''start_'')
          \<and> \<not> (is_meta p
                 \<and> (endswith (source_str p) '' '' \<or> endswith (source_str p) [CHR 0x0A])))"

definition after_gap :: "'p segment option \<Rightarrow> bool" where
  "after_gap next_seg =
     (case next_seg of
        None \<Rightarrow> False
      | Some n \<Rightarrow>
          \<not> is_whitespace n
          \<and> \<not> (endswith (name n) ''_bracket'' \<and> startswith (name n) ''end_'')
          \<and> \<not> (is_meta n
                 \<and> (startswith (source_str n) '' '' \<or> startswith (source_str n) [CHR 0x0A])))"

text \<open>The violations appended at lines 142 to 159 and 197 to 214.\<close>

definition before_violation :: "'p segment \<Rightarrow> 'p segment \<Rightarrow> 'p lint_result" where
  "before_violation sub_seg b_anchor =
     \<lparr>anchor = Some b_anchor,
      description = Some (''Missing whitespace before '' @ take 10 (raw b_anchor)),
      lint_fixes = [\<lparr>edit_type = ''create'', fix_anchor = sub_seg,
                edit = make_whitespace '' '' (pos_marker sub_seg)\<rparr>]\<rparr>"

definition after_violation :: "'p segment \<Rightarrow> 'p segment \<Rightarrow> 'p lint_result" where
  "after_violation next_seg a_anchor =
     \<lparr>anchor = Some a_anchor,
      description =
        Some (''Missing whitespace after '' @ drop (length (raw a_anchor) - 10) (raw a_anchor)),
      lint_fixes = [\<lparr>edit_type = ''create'', fix_anchor = next_seg,
                edit = make_whitespace '' '' (pos_marker next_seg)\<rparr>]\<rparr>"

text \<open>The two side checks (lines 106 to 159 and 161 to 214): what each appends.\<close>

definition before_check :: "'p segment list \<Rightarrow> nat \<Rightarrow> 'p locals \<Rightarrow> 'p lint_result list" where
  "before_check segs idx st =
     (if check_before st then
        (let prev_seg = scan_prev segs idx
         in if before_gap prev_seg then [before_violation (segs ! idx) (before_anchor st)]
            else [])
      else [])"

definition after_check :: "'p segment list \<Rightarrow> nat \<Rightarrow> 'p locals \<Rightarrow> 'p lint_result list" where
  "after_check segs idx st =
     (if check_after st then
        (let next_seg = scan_next segs (idx + 1)
         in case next_seg of
              None \<Rightarrow> []
            | Some n \<Rightarrow>
                if after_gap next_seg then [after_violation n (after_anchor st)] else [])
      else [])"

text \<open>One pass through the loop body: what the child at \<^verbatim>\<open>idx\<close> appends.\<close>

definition check_child :: "'p segment list \<Rightarrow> nat \<Rightarrow> 'p lint_result list" where
  "check_child segs idx =
     (let sub_seg = segs ! idx
      in if is_whitespace sub_seg then []
         else if \<not> is_code sub_seg then []
         else (let st = find_targets sub_seg
               in before_check segs idx st @ after_check segs idx st))"

subsection \<open>The rule\<close>

text \<open>The loop of line 63, with the list \<^verbatim>\<open>violations\<close> passed along.\<close>

function violations_loop ::
  "'p segment list \<Rightarrow> nat \<Rightarrow> 'p lint_result list \<Rightarrow> 'p lint_result list" where
  "violations_loop segs idx violations =
     (if idx < length segs
      then violations_loop segs (idx + 1) (violations @ check_child segs idx)
      else violations)"
  by pat_completeness auto
termination
  by (relation "measure (\<lambda>(segs, idx, violations). length segs - idx)") auto

definition Rule_L006_eval :: "'p segment \<Rightarrow> 'p eval_return" where
  "Rule_L006_eval segment =
     (if length (segments segment) \<le> 2 then ReturnResult empty_result
      else (let violations = violations_loop (segments segment) 0 []
            in if violations \<noteq> [] then ReturnList violations else ReturnNone))"

subsection \<open>The rule as the driver sees it\<close>

text \<open>
  Modelled from the spec: the rule driver is not part of the rule's file. The spec gives
  its contract as \<^verbatim>\<open>evaluate(node) -> sequence of Diagnostic\<close>: a returned list is
  the sequence itself, \<^verbatim>\<open>None\<close> is the empty sequence, and a single result counts
  when it has an anchor (\<^verbatim>\<open>LintResult()\<close> has none).
\<close>

definition diagnostics :: "'p eval_return \<Rightarrow> 'p lint_result list" where
  "diagnostics r =
     (case r of
        ReturnNone \<Rightarrow> []
      | ReturnResult res \<Rightarrow> (case anchor res of None \<Rightarrow> [] | Some a \<Rightarrow> [res])
      | ReturnList rs \<Rightarrow> rs)"

definition evaluate :: "'p segment \<Rightarrow> 'p lint_result list" where
  "evaluate segment = diagnostics (Rule_L006_eval segment)"

definition proposed_fixes :: "'p segment \<Rightarrow> 'p lint_fix list" where
  "proposed_fixes segment = concat (map lint_fixes (evaluate segment))"

text \<open>
  Modelled from the spec: the layer that applies fixes is not part of the rule's file. A
  \<^verbatim>\<open>create\<close> fix puts its new segment immediately before its anchor in the
  parent's child list; the fixes are independent of each other, so every child gets, in
  front of it, the new segments of all the fixes anchored at it.
\<close>

definition new_segments_before :: "'p lint_fix list \<Rightarrow> 'p segment \<Rightarrow> 'p segment list" where
  "new_segments_before fs c =
     map edit (filter (\<lambda>f. edit_type f = ''create'' \<and> fix_anchor f = c) fs)"

definition apply_fixes :: "'p lint_fix list \<Rightarrow> 'p segment list \<Rightarrow> 'p segment list" where
  "apply_fixes fs segs = concat (map (\<lambda>c. new_segments_before fs c @ [c]) segs)"

text \<open>The new segments of a list of fixes are all whitespace, none tagged \<^verbatim>\<open>indent\<close>.\<close>

definition whitespace_edits :: "'p lint_fix list \<Rightarrow> bool" where
  "whitespace_edits fs =
     list_all (\<lambda>f. is_whitespace (edit f) \<and> \<not> is_type (edit f) ''indent'') fs"

subsection \<open>The loop without indices\<close>

text \<open>
  For the proofs, the loop is also written over a split of the child list: the children
  before the current one (nearest first), the current child, the children after it.
\<close>

definition first_non_indent :: "'p segment list \<Rightarrow> 'p segment option" where
  "first_non_indent segs = find (\<lambda>s. \<not> is_type s ''indent'') segs"

definition check_split ::
  "'p segment list \<Rightarrow> 'p segment \<Rightarrow> 'p segment list \<Rightarrow> 'p lint_result list" where
  "check_split rpre sub_seg post =
     (if is_whitespace sub_seg then []
      else if \<not> is_code sub_seg then []
      else (let st = find_targets sub_seg
            in (if check_before st \<and> before_gap (first_non_indent rpre)
                then [before_violation sub_seg (before_anchor st)] else [])
               @ (if check_after st then
                    (case first_non_indent post of
                       None \<Rightarrow> []
                     | Some n \<Rightarrow>
                         if after_gap (Some n) then [after_violation n (after_anchor st)]
                         else [])
                  else [])))"

fun walk :: "'p segment list \<Rightarrow> 'p segment list \<Rightarrow> 'p lint_result list" where
  "walk rpre [] = []"
| "walk rpre (c # post) = check_split rpre c post @ walk (c # rpre) post"

subsection \<open>Example segments\<close>

text \<open>Leaves and small trees for \<^verbatim>\<open>a+b\<close> and its variants; positions are offsets.\<close>

definition code_leaf :: "string \<Rightarrow> string \<Rightarrow> nat \<Rightarrow> nat segment" where
  "code_leaf ty rw pos = Segment ty [ty] False True False rw [] pos []"

definition ws_leaf :: "nat \<Rightarrow> nat segment" where
  "ws_leaf pos = Segment ''whitespace'' [''whitespace''] True False False '' '' [] pos []"

definition indent_marker :: "nat \<Rightarrow> nat segment" where
  "indent_marker pos = Segment ''indent'' [''indent'', ''meta''] False False True [] [] pos []"

definition placeholder :: "string \<Rightarrow> nat \<Rightarrow> nat segment" where
  "placeholder src pos =
     Segment ''placeholder'' [''placeholder'', ''meta''] False False True [] src pos []"

definition node :: "string \<Rightarrow> nat segment list \<Rightarrow> nat segment" where
  "node ty subs =
     Segment ty [ty] False True False (concat (map raw subs)) []
       (case subs of [] \<Rightarrow> 0 | s # _ \<Rightarrow> pos_marker s) subs"

text \<open>
  What the claims call a plain code leaf such as \<^verbatim>\<open>a\<close> or \<^verbatim>\<open>b\<close>: a code
  segment without children that is neither whitespace nor a meta segment, not an operator,
  not tagged \<^verbatim>\<open>indent\<close> and not named as a bracket.
\<close>

definition plain_code_leaf :: "'p segment \<Rightarrow> bool" where
  "plain_code_leaf s =
     (is_code s \<and> \<not> is_whitespace s \<and> \<not> is_meta s \<and> segments s = []
      \<and> \<not> matches_target_tuples s target_elems \<and> \<not> is_type s ''indent''
      \<and> \<not> endswith (name s) ''_bracket'')"

section \<open>The loop and the scans, without indices\<close>

declare scan_next.simps [simp del]
declare violations_loop.simps [simp del]

lemma scan_prev_find:
  "idx \<le> length segs \<Longrightarrow> scan_prev segs idx = first_non_indent (rev (take idx segs))"
proof (induction idx)
  case 0
  then show ?case by (simp add: first_non_indent_def)
next
  case (Suc j)
  then have "take (Suc j) segs = take j segs @ [segs ! j]"
    by (simp add: take_Suc_conv_app_nth)
  with Suc show ?case by (simp add: first_non_indent_def)
qed

lemma scan_next_find: "scan_next segs j = first_non_indent (drop j segs)"
proof (induction segs j rule: scan_next.induct)
  case (1 segs j)
  show ?case
  proof (cases "j < length segs")
    case True
    then have d: "drop j segs = segs ! j # drop (Suc j) segs"
      by (simp add: Cons_nth_drop_Suc)
    show ?thesis
      using True 1 by (subst scan_next.simps) (simp add: d first_non_indent_def)
  next
    case False
    then show ?thesis by (subst scan_next.simps) (simp add: first_non_indent_def)
  qed
qed

lemma check_child_split:
  "idx < length segs \<Longrightarrow>
   check_child segs idx = check_split (rev (take idx segs)) (segs ! idx) (drop (Suc idx) segs)"
  by (simp add: check_child_def check_split_def before_check_def after_check_def
      scan_prev_find scan_next_find Let_def split: option.splits)

lemma violations_loop_concat:
  "violations_loop segs idx vs = vs @ concat (map (check_child segs) [idx..<length segs])"
proof (induction segs idx vs rule: violations_loop.induct)
  case (1 segs idx vs)
  show ?case
  proof (cases "idx < length segs")
    case True
    then show ?thesis
      using 1 by (subst violations_loop.simps) (simp add: upt_conv_Cons)
  next
    case False
    then show ?thesis by (subst violations_loop.simps) simp
  qed
qed

lemma walk_concat:
  "walk (rev pre) post =
   concat (map (check_child (pre @ post)) [length pre..<length pre + length post])"
proof (induction post arbitrary: pre)
  case Nil
  then show ?case by simp
next
  case (Cons c post)
  have "walk (rev (pre @ [c])) post =
        concat (map (check_child ((pre @ [c]) @ post)) [length (pre @ [c])..<length (pre @ [c]) + length post])"
    by (rule Cons.IH)
  then have ih: "walk (c # rev pre) post =
        concat (map (check_child (pre @ c # post)) [Suc (length pre)..<Suc (length pre + length post)])"
    by simp
  have cc: "check_child (pre @ c # post) (length pre) = check_split (rev pre) c post"
    by (simp add: check_child_split)
  have u: "[length pre..<length pre + length (c # post)] =
           length pre # [Suc (length pre)..<Suc (length pre + length post)]"
    by (simp add: upt_conv_Cons del: upt_Suc)
  show ?case
    unfolding u by (simp add: ih cc del: upt_Suc)
qed

lemma violations_loop_walk: "violations_loop segs 0 [] = walk [] segs"
  using walk_concat [of "[]" segs] by (simp add: violations_loop_concat)

lemma eval_walk:
  "Rule_L006_eval segment =
     (if length (segments segment) \<le> 2 then ReturnResult empty_result
      else if walk [] (segments segment) \<noteq> [] then ReturnList (walk [] (segments segment))
      else ReturnNone)"
  by (simp add: Rule_L006_eval_def violations_loop_walk)

lemma evaluate_walk:
  "evaluate segment =
     (if length (segments segment) \<le> 2 then [] else walk [] (segments segment))"
  by (simp add: evaluate_def eval_walk diagnostics_def empty_result_def)

section \<open>Facts about the checks on one child\<close>

lemma find_targets_plain:
  "plain_code_leaf s \<Longrightarrow> find_targets s =
     \<lparr>check_before = False, check_after = False, before_anchor = s, after_anchor = s\<rparr>"
  by (simp add: find_targets_def plain_code_leaf_def)

lemma find_targets_target:
  "matches_target_tuples s target_elems \<Longrightarrow> find_targets s =
     \<lparr>check_before = True, check_after = True, before_anchor = s, after_anchor = s\<rparr>"
  by (simp add: find_targets_def)

lemma check_split_plain: "plain_code_leaf s \<Longrightarrow> check_split rpre s post = []"
  by (simp add: check_split_def find_targets_plain)

lemma before_gap_plain: "plain_code_leaf s \<Longrightarrow> before_gap (Some s)"
  by (simp add: before_gap_def plain_code_leaf_def)

lemma after_gap_plain: "plain_code_leaf s \<Longrightarrow> after_gap (Some s)"
  by (simp add: after_gap_def plain_code_leaf_def)

lemma first_non_indent_Cons:
  "first_non_indent (s # segs) = (if is_type s ''indent'' then first_non_indent segs else Some s)"
  by (simp add: first_non_indent_def)

lemma first_non_indent_Nil: "first_non_indent [] = None"
  by (simp add: first_non_indent_def)

section \<open>An operator between two plain leaves\<close>

text \<open>
  C1. A parent whose children are exactly the code leaves \<^verbatim>\<open>a\<close>, \<^verbatim>\<open>+\<close>,
  \<^verbatim>\<open>b\<close>, the middle one an operator, gets exactly two diagnostics: ``Missing
  whitespace before +'' and ``Missing whitespace after +''. Both are anchored at the
  operator and carry one \<^verbatim>\<open>create\<close> fix of a one-space whitespace segment; the fix
  of the first is anchored at the operator itself (the checked child), the fix of the
  second at the following neighbour \<^verbatim>\<open>b\<close>.
\<close>

theorem missing_both_sides:
  assumes "segments parent = [a, op, b]"
    and "plain_code_leaf a" and "plain_code_leaf b"
    and "is_code op" and "\<not> is_whitespace op"
    and "matches_target_tuples op target_elems"
    and "raw op = ''+''"
  shows "Rule_L006_eval parent = ReturnList
     [\<lparr>anchor = Some op, description = Some ''Missing whitespace before +'',
       lint_fixes = [\<lparr>edit_type = ''create'', fix_anchor = op,
                      edit = make_whitespace '' '' (pos_marker op)\<rparr>]\<rparr>,
      \<lparr>anchor = Some op, description = Some ''Missing whitespace after +'',
       lint_fixes = [\<lparr>edit_type = ''create'', fix_anchor = b,
                      edit = make_whitespace '' '' (pos_marker b)\<rparr>]\<rparr>]"
proof -
  have na: "\<not> is_type a ''indent''" and nb: "\<not> is_type b ''indent''"
    using assms(2,3) by (simp_all add: plain_code_leaf_def)
  have ca: "check_split [] a [op, b] = []" and cb: "check_split [op, a] b [] = []"
    using assms(2,3) by (simp_all add: check_split_plain)
  have co: "check_split [a] op [b] = [before_violation op op, after_violation b op]"
    using assms(2-6) na nb
    by (simp add: check_split_def find_targets_target
        first_non_indent_Cons first_non_indent_Nil before_gap_plain after_gap_plain)
  have w: "walk [] [a, op, b] = [before_violation op op, after_violation b op]"
    by (simp add: ca cb co)
  show ?thesis
    using assms(1,7)
    by (simp add: eval_walk w before_violation_def after_violation_def del: walk.simps)
qed

theorem missing_both_sides_witness:
  "Rule_L006_eval (node ''expression''
      [code_leaf ''identifier'' ''a'' 0, code_leaf ''binary_operator'' ''+'' 1,
       code_leaf ''identifier'' ''b'' 2]) = ReturnList
     [\<lparr>anchor = Some (code_leaf ''binary_operator'' ''+'' 1),
       description = Some ''Missing whitespace before +'',
       lint_fixes = [\<lparr>edit_type = ''create'', fix_anchor = code_leaf ''binary_operator'' ''+'' 1,
                      edit = ws_leaf 1\<rparr>]\<rparr>,
      \<lparr>anchor = Some (code_leaf ''binary_operator'' ''+'' 1),
       description = Some ''Missing whitespace after +'',
       lint_fixes = [\<lparr>edit_type = ''create'', fix_anchor = code_leaf ''identifier'' ''b'' 2,
                      edit = ws_leaf 2\<rparr>]\<rparr>]"
  using missing_both_sides [of "node ''expression''
      [code_leaf ''identifier'' ''a'' 0, code_leaf ''binary_operator'' ''+'' 1,
       code_leaf ''identifier'' ''b'' 2]" "code_leaf ''identifier'' ''a'' 0"
      "code_leaf ''binary_operator'' ''+'' 1" "code_leaf ''identifier'' ''b'' 2"]
  by (simp add: node_def code_leaf_def ws_leaf_def make_whitespace_def plain_code_leaf_def
      matches_target_tuples_def target_elems_def is_type_def endswith_def)

section \<open>More facts about the side checks\<close>

lemma before_check_no_gap:
  "\<not> before_gap (scan_prev segs idx) \<Longrightarrow> before_check segs idx st = []"
  by (simp add: before_check_def)

lemma after_check_no_gap:
  "\<not> after_gap (scan_next segs (idx + 1)) \<Longrightarrow> after_check segs idx st = []"
  by (auto simp: after_check_def Let_def split: option.splits)

lemma check_split_whitespace_neighbours:
  assumes "first_non_indent rpre = None \<or> (\<exists>p. first_non_indent rpre = Some p \<and> is_whitespace p)"
    and "first_non_indent post = None \<or> (\<exists>n. first_non_indent post = Some n \<and> is_whitespace n)"
  shows "check_split rpre c post = []"
  using assms by (auto simp: check_split_def before_gap_def after_gap_def Let_def)

lemma walk_no_targets:
  "\<forall>c \<in> set segs. is_whitespace c \<or> \<not> is_code c
      \<or> (\<not> check_before (find_targets c) \<and> \<not> check_after (find_targets c))
   \<Longrightarrow> walk rpre segs = []"
proof (induction segs arbitrary: rpre)
  case Nil
  then show ?case by simp
next
  case (Cons c segs)
  then have "check_split rpre c segs = []"
    by (auto simp: check_split_def Let_def)
  with Cons show ?case by simp
qed

lemma before_check_shape:
  "before_check segs idx st = [] \<or> before_check segs idx st = [before_violation (segs ! idx) (before_anchor st)]"
  by (simp add: before_check_def)

lemma after_check_shape:
  "after_check segs idx st = [] \<or> (\<exists>n. after_check segs idx st = [after_violation n (after_anchor st)])"
  by (auto simp: after_check_def Let_def split: option.splits)

lemmas ex_defs = node_def code_leaf_def ws_leaf_def indent_marker_def placeholder_def
  make_whitespace_def plain_code_leaf_def matches_target_tuples_def target_elems_def
  is_type_def endswith_def startswith_def

section \<open>Exceptions, scans and the order of the diagnostics\<close>

text \<open>
  C3. A check before the operator appends no diagnostic when the resolved neighbour's name
  ends with \<^verbatim>\<open>_bracket\<close> and starts with \<^verbatim>\<open>start_\<close>; a check after it appends
  none when the neighbour's name ends with \<^verbatim>\<open>_bracket\<close> and starts with
  \<^verbatim>\<open>end_\<close>.
\<close>

theorem bracket_neighbour_no_diagnostic:
  "(scan_prev segs idx = Some p \<and> endswith (name p) ''_bracket'' \<and> startswith (name p) ''start_''
      \<longrightarrow> before_check segs idx st = [])
   \<and> (scan_next segs (idx + 1) = Some n \<and> endswith (name n) ''_bracket''
       \<and> startswith (name n) ''end_''
      \<longrightarrow> after_check segs idx st = [])"
  by (simp add: before_check_no_gap after_check_no_gap before_gap_def after_gap_def)

theorem bracket_neighbour_no_diagnostic_witness:
  "before_check [code_leaf ''start_bracket'' ''('' 0, code_leaf ''binary_operator'' ''+'' 1,
                 code_leaf ''end_bracket'' '')'' 2] 1
      (find_targets (code_leaf ''binary_operator'' ''+'' 1)) = []
   \<and> after_check [code_leaf ''start_bracket'' ''('' 0, code_leaf ''binary_operator'' ''+'' 1,
                 code_leaf ''end_bracket'' '')'' 2] 1
      (find_targets (code_leaf ''binary_operator'' ''+'' 1)) = []"
  using bracket_neighbour_no_diagnostic [where idx = 1
      and segs = "[code_leaf ''start_bracket'' ''('' 0, code_leaf ''binary_operator'' ''+'' 1,
                 code_leaf ''end_bracket'' '')'' 2]"
      and p = "code_leaf ''start_bracket'' ''('' 0" and n = "code_leaf ''end_bracket'' '')'' 2"
      and st = "find_targets (code_leaf ''binary_operator'' ''+'' 1)"]
  by (simp add: ex_defs scan_prev_find scan_next_find first_non_indent_def)

text \<open>
  C4. A check before the operator appends no diagnostic when the resolved neighbour is a
  meta segment whose \<^verbatim>\<open>source_str\<close> ends in a space or a newline; a check after it
  appends none when the neighbour is a meta segment whose \<^verbatim>\<open>source_str\<close> starts with
  a space or a newline.
\<close>

theorem template_whitespace_no_diagnostic:
  "(scan_prev segs idx = Some p \<and> is_meta p
      \<and> (endswith (source_str p) '' '' \<or> endswith (source_str p) [CHR 0x0A])
      \<longrightarrow> before_check segs idx st = [])
   \<and> (scan_next segs (idx + 1) = Some n \<and> is_meta n
      \<and> (startswith (source_str n) '' '' \<or> startswith (source_str n) [CHR 0x0A])
      \<longrightarrow> after_check segs idx st = [])"
  by (simp add: before_check_no_gap after_check_no_gap before_gap_def after_gap_def)

theorem template_whitespace_no_diagnostic_witness:
  "before_check [placeholder (''{% if x -%}'' @ [CHR 0x0A]) 0, code_leaf ''binary_operator'' ''+'' 0,
                 placeholder '' {%- endif %}'' 1] 1
      (find_targets (code_leaf ''binary_operator'' ''+'' 0)) = []
   \<and> after_check [placeholder (''{% if x -%}'' @ [CHR 0x0A]) 0, code_leaf ''binary_operator'' ''+'' 0,
                 placeholder '' {%- endif %}'' 1] 1
      (find_targets (code_leaf ''binary_operator'' ''+'' 0)) = []"
  using template_whitespace_no_diagnostic [where idx = 1
      and segs = "[placeholder (''{% if x -%}'' @ [CHR 0x0A]) 0, code_leaf ''binary_operator'' ''+'' 0,
                 placeholder '' {%- endif %}'' 1]"
      and p = "placeholder (''{% if x -%}'' @ [CHR 0x0A]) 0" and n = "placeholder '' {%- endif %}'' 1"
      and st = "find_targets (code_leaf ''binary_operator'' ''+'' 0)"]
  by (simp add: ex_defs scan_prev_find scan_next_find first_non_indent_def)

text \<open>
  C5. The scan in each direction skips the siblings tagged \<^verbatim>\<open>indent\<close> and stops at
  the first sibling without that tag: going backwards from \<^verbatim>\<open>idx - 1\<close> it returns the
  first such sibling of the reversed prefix, going forwards from \<^verbatim>\<open>j\<close> the first such
  sibling of the rest. For children \<^verbatim>\<open>a\<close>, an indent marker, \<^verbatim>\<open>+\<close>, \<^verbatim>\<open>b\<close>
  the rule reports exactly ``Missing whitespace before'' and ``Missing whitespace after''
  the operator, each with its \<^verbatim>\<open>create\<close> fix: the scan before the operator passes
  the marker and finds \<^verbatim>\<open>a\<close>, the scan after it finds \<^verbatim>\<open>b\<close>.
\<close>

theorem indent_transparent:
  "(idx \<le> length segs \<longrightarrow>
      scan_prev segs idx = find (\<lambda>s. \<not> is_type s ''indent'') (rev (take idx segs)))
   \<and> scan_next segs j = find (\<lambda>s. \<not> is_type s ''indent'') (drop j segs)
   \<and> (segments parent = [a, ind, op, b] \<and> plain_code_leaf a \<and> plain_code_leaf b
       \<and> is_type ind ''indent'' \<and> \<not> is_code ind
       \<and> is_code op \<and> \<not> is_whitespace op \<and> matches_target_tuples op target_elems
       \<longrightarrow> scan_prev (segments parent) 2 = Some a
           \<and> scan_next (segments parent) 3 = Some b
           \<and> Rule_L006_eval parent = ReturnList
                [\<lparr>anchor = Some op,
                  description = Some (''Missing whitespace before '' @ take 10 (raw op)),
                  lint_fixes = [\<lparr>edit_type = ''create'', fix_anchor = op,
                                 edit = make_whitespace '' '' (pos_marker op)\<rparr>]\<rparr>,
                 \<lparr>anchor = Some op,
                  description =
                    Some (''Missing whitespace after '' @ drop (length (raw op) - 10) (raw op)),
                  lint_fixes = [\<lparr>edit_type = ''create'', fix_anchor = b,
                                 edit = make_whitespace '' '' (pos_marker b)\<rparr>]\<rparr>])"
proof (intro conjI impI)
  assume "idx \<le> length segs"
  then show "scan_prev segs idx = find (\<lambda>s. \<not> is_type s ''indent'') (rev (take idx segs))"
    by (simp add: scan_prev_find first_non_indent_def)
next
  show "scan_next segs j = find (\<lambda>s. \<not> is_type s ''indent'') (drop j segs)"
    by (simp add: scan_next_find first_non_indent_def)
next
  assume h: "segments parent = [a, ind, op, b] \<and> plain_code_leaf a \<and> plain_code_leaf b
       \<and> is_type ind ''indent'' \<and> \<not> is_code ind
       \<and> is_code op \<and> \<not> is_whitespace op \<and> matches_target_tuples op target_elems"
  then have na: "\<not> is_type a ''indent''" and nb: "\<not> is_type b ''indent''"
    by (simp_all add: plain_code_leaf_def)
  show "scan_prev (segments parent) 2 = Some a"
    using h na by (simp add: scan_prev_find first_non_indent_def)
  show "scan_next (segments parent) 3 = Some b"
    using h nb by (simp add: scan_next_find first_non_indent_def)
  have ca: "check_split [] a [ind, op, b] = []" and cb: "check_split [op, ind, a] b [] = []"
    using h by (simp_all add: check_split_plain)
  have ci: "check_split [a] ind [op, b] = []"
    using h by (simp add: check_split_def)
  have co: "check_split [ind, a] op [b] = [before_violation op op, after_violation b op]"
    using h na nb
    by (simp add: check_split_def find_targets_target
        first_non_indent_Cons first_non_indent_Nil before_gap_plain after_gap_plain)
  have w: "walk [] [a, ind, op, b] = [before_violation op op, after_violation b op]"
    by (simp add: ca cb ci co)
  show "Rule_L006_eval parent = ReturnList
     [\<lparr>anchor = Some op,
       description = Some (''Missing whitespace before '' @ take 10 (raw op)),
       lint_fixes = [\<lparr>edit_type = ''create'', fix_anchor = op,
                      edit = make_whitespace '' '' (pos_marker op)\<rparr>]\<rparr>,
      \<lparr>anchor = Some op,
       description =
         Some (''Missing whitespace after '' @ drop (length (raw op) - 10) (raw op)),
       lint_fixes = [\<lparr>edit_type = ''create'', fix_anchor = b,
                      edit = make_whitespace '' '' (pos_marker b)\<rparr>]\<rparr>]"
    using h by (simp add: eval_walk w before_violation_def after_violation_def del: walk.simps)
qed

theorem indent_transparent_witness:
  "scan_prev [code_leaf ''identifier'' ''a'' 0, indent_marker 1,
              code_leaf ''binary_operator'' ''+'' 1, code_leaf ''identifier'' ''b'' 2] 2
     = Some (code_leaf ''identifier'' ''a'' 0)
   \<and> scan_next [code_leaf ''identifier'' ''a'' 0, indent_marker 1,
              code_leaf ''binary_operator'' ''+'' 1, code_leaf ''identifier'' ''b'' 2] 1
     = Some (code_leaf ''binary_operator'' ''+'' 1)
   \<and> Rule_L006_eval (node ''expression''
        [code_leaf ''identifier'' ''a'' 0, indent_marker 1,
         code_leaf ''binary_operator'' ''+'' 1, code_leaf ''identifier'' ''b'' 2])
     = ReturnList
        [\<lparr>anchor = Some (code_leaf ''binary_operator'' ''+'' 1),
          description = Some ''Missing whitespace before +'',
          lint_fixes = [\<lparr>edit_type = ''create'',
                         fix_anchor = code_leaf ''binary_operator'' ''+'' 1,
                         edit = ws_leaf 1\<rparr>]\<rparr>,
         \<lparr>anchor = Some (code_leaf ''binary_operator'' ''+'' 1),
          description = Some ''Missing whitespace after +'',
          lint_fixes = [\<lparr>edit_type = ''create'',
                         fix_anchor = code_leaf ''identifier'' ''b'' 2,
                         edit = ws_leaf 2\<rparr>]\<rparr>]"
  using indent_transparent [where idx = 2
      and segs = "[code_leaf ''identifier'' ''a'' 0, indent_marker 1,
              code_leaf ''binary_operator'' ''+'' 1, code_leaf ''identifier'' ''b'' 2]"
      and j = 1 and parent = "node ''expression''
        [code_leaf ''identifier'' ''a'' 0, indent_marker 1,
         code_leaf ''binary_operator'' ''+'' 1, code_leaf ''identifier'' ''b'' 2]"
      and a = "code_leaf ''identifier'' ''a'' 0" and ind = "indent_marker 1"
      and op = "code_leaf ''binary_operator'' ''+'' 1" and b = "code_leaf ''identifier'' ''b'' 2"]
  by (simp add: ex_defs)

text \<open>
  C6. When nothing is flagged the rule gives the empty sequence of diagnostics and no
  error. With at most two children it returns \<^verbatim>\<open>LintResult()\<close>, which carries no
  diagnostic. When no child is an applicable target (each child is whitespace, or no code,
  or raises neither check), it returns \<^verbatim>\<open>None\<close>, or \<^verbatim>\<open>LintResult()\<close> when there
  are at most two children; the driver reads both as the empty sequence.
\<close>

theorem nothing_flagged_empty:
  "(length (segments segment) \<le> 2
      \<longrightarrow> Rule_L006_eval segment = ReturnResult empty_result \<and> evaluate segment = [])
   \<and> ((\<forall>c \<in> set (segments segment). is_whitespace c \<or> \<not> is_code c
          \<or> (\<not> check_before (find_targets c) \<and> \<not> check_after (find_targets c)))
      \<longrightarrow> evaluate segment = []
          \<and> Rule_L006_eval segment =
              (if length (segments segment) \<le> 2 then ReturnResult empty_result else ReturnNone))"
  by (simp add: eval_walk evaluate_walk walk_no_targets)

theorem nothing_flagged_empty_witness:
  "Rule_L006_eval (node ''expression''
      [code_leaf ''identifier'' ''a'' 0,
       node ''expression'' [code_leaf ''binary_operator'' ''+'' 1, code_leaf ''identifier'' ''b'' 2]])
     = ReturnResult empty_result
   \<and> evaluate (node ''expression''
      [code_leaf ''identifier'' ''a'' 0,
       node ''expression'' [code_leaf ''binary_operator'' ''+'' 1, code_leaf ''identifier'' ''b'' 2]])
     = []
   \<and> evaluate (node ''expression''
      [code_leaf ''identifier'' ''a'' 0, code_leaf ''comma'' '','' 1, code_leaf ''identifier'' ''b'' 2])
     = []
   \<and> Rule_L006_eval (node ''expression''
      [code_leaf ''identifier'' ''a'' 0, code_leaf ''comma'' '','' 1, code_leaf ''identifier'' ''b'' 2])
     = ReturnNone"
  using nothing_flagged_empty [of "node ''expression''
      [code_leaf ''identifier'' ''a'' 0,
       node ''expression'' [code_leaf ''binary_operator'' ''+'' 1, code_leaf ''identifier'' ''b'' 2]]"]
    nothing_flagged_empty [of "node ''expression''
      [code_leaf ''identifier'' ''a'' 0, code_leaf ''comma'' '','' 1, code_leaf ''identifier'' ''b'' 2]"]
  by (simp add: ex_defs find_targets_def)

text \<open>
  C8. A side check whose resolved neighbour is a whitespace segment appends no diagnostic
  for that side. For children \<^verbatim>\<open>a\<close>, whitespace, \<^verbatim>\<open>+\<close>, whitespace, \<^verbatim>\<open>b\<close>
  the rule returns no diagnostic at all (whatever the three other children are).
\<close>

theorem whitespace_neighbour_no_diagnostic:
  "(scan_prev segs idx = Some p \<and> is_whitespace p \<longrightarrow> before_check segs idx st = [])
   \<and> (scan_next segs (idx + 1) = Some n \<and> is_whitespace n \<longrightarrow> after_check segs idx st = [])
   \<and> (segments parent = [a, w1, op, w2, b]
       \<and> is_whitespace w1 \<and> \<not> is_type w1 ''indent''
       \<and> is_whitespace w2 \<and> \<not> is_type w2 ''indent''
       \<longrightarrow> Rule_L006_eval parent = ReturnNone \<and> evaluate parent = [])"
proof (intro conjI impI)
  assume "scan_prev segs idx = Some p \<and> is_whitespace p"
  then show "before_check segs idx st = []"
    by (simp add: before_check_no_gap before_gap_def)
next
  assume "scan_next segs (idx + 1) = Some n \<and> is_whitespace n"
  then show "after_check segs idx st = []"
    by (simp add: after_check_no_gap after_gap_def)
next
  assume h: "segments parent = [a, w1, op, w2, b]
       \<and> is_whitespace w1 \<and> \<not> is_type w1 ''indent''
       \<and> is_whitespace w2 \<and> \<not> is_type w2 ''indent''"
  have c1: "check_split [] a [w1, op, w2, b] = []"
    using h by (intro check_split_whitespace_neighbours) (simp_all add: first_non_indent_Cons first_non_indent_Nil)
  have c2: "check_split [a] w1 [op, w2, b] = []" and c4: "check_split [op, w1, a] w2 [b] = []"
    using h by (simp_all add: check_split_def)
  have c3: "check_split [w1, a] op [w2, b] = []"
    using h by (intro check_split_whitespace_neighbours) (simp_all add: first_non_indent_Cons first_non_indent_Nil)
  have c5: "check_split [w2, op, w1, a] b [] = []"
    using h by (intro check_split_whitespace_neighbours) (simp_all add: first_non_indent_Cons first_non_indent_Nil)
  have w: "walk [] [a, w1, op, w2, b] = []"
    by (simp add: c1 c2 c3 c4 c5)
  show "Rule_L006_eval parent = ReturnNone"
    using h by (simp add: eval_walk w del: walk.simps)
  show "evaluate parent = []"
    using h by (simp add: evaluate_walk w del: walk.simps)
qed

theorem whitespace_neighbour_no_diagnostic_witness:
  "before_check [code_leaf ''identifier'' ''a'' 0, ws_leaf 1, code_leaf ''binary_operator'' ''+'' 2,
                 ws_leaf 3, code_leaf ''identifier'' ''b'' 4] 2
      (find_targets (code_leaf ''binary_operator'' ''+'' 2)) = []
   \<and> after_check [code_leaf ''identifier'' ''a'' 0, ws_leaf 1, code_leaf ''binary_operator'' ''+'' 2,
                 ws_leaf 3, code_leaf ''identifier'' ''b'' 4] 2
      (find_targets (code_leaf ''binary_operator'' ''+'' 2)) = []
   \<and> Rule_L006_eval (node ''expression''
        [code_leaf ''identifier'' ''a'' 0, ws_leaf 1, code_leaf ''binary_operator'' ''+'' 2,
         ws_leaf 3, code_leaf ''identifier'' ''b'' 4]) = ReturnNone
   \<and> evaluate (node ''expression''
        [code_leaf ''identifier'' ''a'' 0, ws_leaf 1, code_leaf ''binary_operator'' ''+'' 2,
         ws_leaf 3, code_leaf ''identifier'' ''b'' 4]) = []"
  using whitespace_neighbour_no_diagnostic [where idx = 2
      and segs = "[code_leaf ''identifier'' ''a'' 0, ws_leaf 1, code_leaf ''binary_operator'' ''+'' 2,
                 ws_leaf 3, code_leaf ''identifier'' ''b'' 4]"
      and p = "ws_leaf 1" and n = "ws_leaf 3"
      and st = "find_targets (code_leaf ''binary_operator'' ''+'' 2)"
      and parent = "node ''expression''
        [code_leaf ''identifier'' ''a'' 0, ws_leaf 1, code_leaf ''binary_operator'' ''+'' 2,
         ws_leaf 3, code_leaf ''identifier'' ''b'' 4]"
      and a = "code_leaf ''identifier'' ''a'' 0" and ?w1.0 = "ws_leaf 1"
      and op = "code_leaf ''binary_operator'' ''+'' 2" and ?w2.0 = "ws_leaf 3"
      and b = "code_leaf ''identifier'' ''b'' 4"]
  by (simp add: ex_defs scan_prev_find scan_next_find first_non_indent_def)

text \<open>
  C10. The diagnostics come in the order of the children that raise them: the result is
  the concatenation, by increasing child index, of what each child appends. A child appends
  at most one ``Missing whitespace before'' diagnostic followed by at most one ``Missing
  whitespace after'' diagnostic, so when it raises both, the first immediately precedes
  the second.
\<close>

theorem diagnostics_in_child_order:
  "evaluate segment =
     (if length (segments segment) \<le> 2 then []
      else concat (map (check_child (segments segment)) [0..<length (segments segment)]))
   \<and> (\<exists>bs as. check_child segs idx = bs @ as \<and> length bs \<le> 1 \<and> length as \<le> 1
        \<and> (\<forall>v \<in> set bs. \<exists>x. description v = Some (''Missing whitespace before '' @ x))
        \<and> (\<forall>v \<in> set as. \<exists>x. description v = Some (''Missing whitespace after '' @ x)))"
proof
  show "evaluate segment =
     (if length (segments segment) \<le> 2 then []
      else concat (map (check_child (segments segment)) [0..<length (segments segment)]))"
    by (simp add: evaluate_def Rule_L006_eval_def violations_loop_concat diagnostics_def
        empty_result_def)
next
  let ?st = "find_targets (segs ! idx)"
  let ?P = "\<lambda>bs as. check_child segs idx = bs @ as \<and> length bs \<le> 1 \<and> length as \<le> 1
        \<and> (\<forall>v \<in> set bs. \<exists>x. description v = Some (''Missing whitespace before '' @ x))
        \<and> (\<forall>v \<in> set as. \<exists>x. description v = Some (''Missing whitespace after '' @ x))"
  show "\<exists>bs as. ?P bs as"
  proof (cases "is_whitespace (segs ! idx) \<or> \<not> is_code (segs ! idx)")
    case True
    then have "?P [] []" by (auto simp: check_child_def Let_def)
    then show ?thesis by blast
  next
    case False
    then have c: "check_child segs idx = before_check segs idx ?st @ after_check segs idx ?st"
      by (simp add: check_child_def Let_def)
    have "?P (before_check segs idx ?st) (after_check segs idx ?st)"
      using before_check_shape [of segs idx ?st] after_check_shape [of segs idx ?st] c
      by (auto simp: before_violation_def after_violation_def)
    then show ?thesis by blast
  qed
qed

theorem diagnostics_in_child_order_witness:
  "evaluate (node ''expression''
      [code_leaf ''identifier'' ''a'' 0, code_leaf ''binary_operator'' ''+'' 1,
       code_leaf ''identifier'' ''b'' 2, code_leaf ''comparison_operator'' ''<'' 3,
       code_leaf ''identifier'' ''c'' 4])
   = [before_violation (code_leaf ''binary_operator'' ''+'' 1) (code_leaf ''binary_operator'' ''+'' 1),
      after_violation (code_leaf ''identifier'' ''b'' 2) (code_leaf ''binary_operator'' ''+'' 1),
      before_violation (code_leaf ''comparison_operator'' ''<'' 3)
        (code_leaf ''comparison_operator'' ''<'' 3),
      after_violation (code_leaf ''identifier'' ''c'' 4) (code_leaf ''comparison_operator'' ''<'' 3)]"
proof -
  let ?segs = "[code_leaf ''identifier'' ''a'' 0, code_leaf ''binary_operator'' ''+'' 1,
       code_leaf ''identifier'' ''b'' 2, code_leaf ''comparison_operator'' ''<'' 3,
       code_leaf ''identifier'' ''c'' 4]"
  have u: "[0..<length ?segs] = [0, 1, 2, 3, 4]"
    by (simp add: upt_rec)
  have c0: "check_child ?segs 0 = []"
    by (simp add: check_child_split check_split_def find_targets_def ex_defs)
  have c1: "check_child ?segs 1 =
      [before_violation (code_leaf ''binary_operator'' ''+'' 1) (code_leaf ''binary_operator'' ''+'' 1),
       after_violation (code_leaf ''identifier'' ''b'' 2) (code_leaf ''binary_operator'' ''+'' 1)]"
    by (simp add: check_child_split check_split_def find_targets_def ex_defs
        first_non_indent_def before_gap_def after_gap_def)
  have c2: "check_child ?segs 2 = []"
    by (simp add: check_child_split check_split_def find_targets_def ex_defs)
  have c3: "check_child ?segs 3 =
      [before_violation (code_leaf ''comparison_operator'' ''<'' 3)
        (code_leaf ''comparison_operator'' ''<'' 3),
       after_violation (code_leaf ''identifier'' ''c'' 4) (code_leaf ''comparison_operator'' ''<'' 3)]"
    by (simp add: check_child_split check_split_def find_targets_def ex_defs
        first_non_indent_def before_gap_def after_gap_def)
  have c4: "check_child ?segs 4 = []"
    by (simp add: check_child_split check_split_def find_targets_def ex_defs)
  have s: "segments (node ''expression'' ?segs) = ?segs"
    by (simp add: node_def)
  from diagnostics_in_child_order [of "node ''expression'' ?segs" ?segs 0]
  have "evaluate (node ''expression'' ?segs) =
      concat (map (check_child ?segs) [0..<length ?segs])"
    unfolding s by simp
  then show ?thesis
    unfolding u by (simp only: c0 c1 c2 c3 c4 list.map concat.simps append.simps)
qed

section \<open>Compound children\<close>

lemma iter_raw_seg_leaf: "segments s = [] \<Longrightarrow> iter_raw_seg s = [s]"
  by (cases s) simp

lemma iter_raw_seg_two_leaves:
  "segments s = [l, t] \<Longrightarrow> segments l = [] \<Longrightarrow> segments t = [] \<Longrightarrow> iter_raw_seg s = [l, t]"
  by (cases s) (simp add: iter_raw_seg_leaf)

lemma find_targets_leading:
  assumes "\<not> matches_target_tuples cmp target_elems" and "segments cmp \<noteq> []"
    and "1 < length (iter_raw_seg cmp)"
    and "matches_target_tuples (hd (iter_raw_seg cmp)) target_elems"
  shows "check_before (find_targets cmp)"
    and "before_anchor (find_targets cmp) = hd (iter_raw_seg cmp)"
  using assms by (simp_all add: find_targets_def Let_def)

text \<open>
  For the children \<^verbatim>\<open>a\<close>, whitespace, \<^verbatim>\<open>+b\<close>, where \<^verbatim>\<open>+b\<close> is a compound
  of the leaves \<^verbatim>\<open>+\<close> and \<^verbatim>\<open>b\<close>, the rule returns \<^verbatim>\<open>None\<close>: there is no
  ``Missing whitespace after +''.
\<close>

theorem compound_leading_counterexample:
  "Rule_L006_eval (node ''expression''
      [code_leaf ''identifier'' ''a'' 0, ws_leaf 1,
       node ''expression'' [code_leaf ''binary_operator'' ''+'' 2, code_leaf ''identifier'' ''b'' 3]])
     = ReturnNone
   \<and> evaluate (node ''expression''
      [code_leaf ''identifier'' ''a'' 0, ws_leaf 1,
       node ''expression'' [code_leaf ''binary_operator'' ''+'' 2, code_leaf ''identifier'' ''b'' 3]])
     = []"
  by (simp add: eval_walk evaluate_walk check_split_def find_targets_def ex_defs
      first_non_indent_def before_gap_def after_gap_def)

text \<open>
  C2, as the code has it. For children \<^verbatim>\<open>a\<close>, whitespace, \<^verbatim>\<open>+b\<close>, where
  \<^verbatim>\<open>+b\<close> is a compound child whose first leaf is an operator and whose second leaf is
  not, the rule yields no diagnostic. The leading operator raises the check before the
  compound only, with the operator leaf as anchor, and the neighbour found there is the
  whitespace; no check is raised after it, and the rule does not look between the leaves of
  the compound.
\<close>

theorem compound_leading_after_whitespace:
  assumes "segments parent = [a, w, cmp]"
    and "is_whitespace w" and "\<not> is_type w ''indent''"
    and "\<not> matches_target_tuples cmp target_elems"
    and "segments cmp = [l, t]" and "segments l = []" and "segments t = []"
    and "matches_target_tuples l target_elems" and "\<not> matches_target_tuples t target_elems"
  shows "find_targets cmp =
           \<lparr>check_before = True, check_after = False, before_anchor = l, after_anchor = cmp\<rparr>
         \<and> scan_prev (segments parent) 2 = Some w
         \<and> Rule_L006_eval parent = ReturnNone \<and> evaluate parent = []"
proof -
  have r: "iter_raw_seg cmp = [l, t]"
    using assms(5-7) by (rule iter_raw_seg_two_leaves)
  have ft: "find_targets cmp =
      \<lparr>check_before = True, check_after = False, before_anchor = l, after_anchor = cmp\<rparr>"
    using assms(4,5,8,9) by (simp add: find_targets_def r)
  have sp: "scan_prev (segments parent) 2 = Some w"
    using assms(1,3) by (simp add: scan_prev_find first_non_indent_def)
  have c1: "check_split [] a [w, cmp] = []"
    using assms(2,3)
    by (intro check_split_whitespace_neighbours) (simp_all add: first_non_indent_Cons first_non_indent_Nil)
  have c2: "check_split [a] w [cmp] = []"
    using assms(2) by (simp add: check_split_def)
  have c3: "check_split [w, a] cmp [] = []"
    using assms(2,3)
    by (intro check_split_whitespace_neighbours) (simp_all add: first_non_indent_Cons first_non_indent_Nil)
  have w: "walk [] [a, w, cmp] = []"
    by (simp add: c1 c2 c3)
  have e: "Rule_L006_eval parent = ReturnNone" "evaluate parent = []"
    using assms(1) by (simp_all add: eval_walk evaluate_walk w del: walk.simps)
  show ?thesis
    using ft sp e by blast
qed

theorem compound_leading_after_whitespace_witness:
  "find_targets (node ''expression''
       [code_leaf ''binary_operator'' ''+'' 2, code_leaf ''identifier'' ''b'' 3]) =
     \<lparr>check_before = True, check_after = False,
      before_anchor = code_leaf ''binary_operator'' ''+'' 2,
      after_anchor = node ''expression''
       [code_leaf ''binary_operator'' ''+'' 2, code_leaf ''identifier'' ''b'' 3]\<rparr>
   \<and> scan_prev [code_leaf ''identifier'' ''a'' 0, ws_leaf 1,
       node ''expression'' [code_leaf ''binary_operator'' ''+'' 2, code_leaf ''identifier'' ''b'' 3]] 2
     = Some (ws_leaf 1)
   \<and> Rule_L006_eval (node ''expression''
      [code_leaf ''identifier'' ''a'' 0, ws_leaf 1,
       node ''expression'' [code_leaf ''binary_operator'' ''+'' 2, code_leaf ''identifier'' ''b'' 3]])
     = ReturnNone
   \<and> evaluate (node ''expression''
      [code_leaf ''identifier'' ''a'' 0, ws_leaf 1,
       node ''expression'' [code_leaf ''binary_operator'' ''+'' 2, code_leaf ''identifier'' ''b'' 3]])
     = []"
  using compound_leading_after_whitespace [where parent = "node ''expression''
      [code_leaf ''identifier'' ''a'' 0, ws_leaf 1,
       node ''expression'' [code_leaf ''binary_operator'' ''+'' 2, code_leaf ''identifier'' ''b'' 3]]"
      and a = "code_leaf ''identifier'' ''a'' 0" and w = "ws_leaf 1"
      and cmp = "node ''expression''
         [code_leaf ''binary_operator'' ''+'' 2, code_leaf ''identifier'' ''b'' 3]"
      and l = "code_leaf ''binary_operator'' ''+'' 2" and t = "code_leaf ''identifier'' ''b'' 3"]
  by (simp add: ex_defs)

text \<open>
  For the children \<^verbatim>\<open>(\<close>, \<^verbatim>\<open>a\<close>, \<^verbatim>\<open>+b\<close> the rule does report ``Missing
  whitespace before +'': the neighbour of the compound is \<^verbatim>\<open>a\<close>, not the bracket.
\<close>

theorem bracket_not_adjacent_counterexample:
  "evaluate (node ''bracketed''
      [code_leaf ''start_bracket'' ''('' 0, code_leaf ''identifier'' ''a'' 1,
       node ''expression'' [code_leaf ''binary_operator'' ''+'' 2, code_leaf ''identifier'' ''b'' 3]])
   = [\<lparr>anchor = Some (code_leaf ''binary_operator'' ''+'' 2),
       description = Some ''Missing whitespace before +'',
       lint_fixes = [\<lparr>edit_type = ''create'',
                      fix_anchor = node ''expression''
                        [code_leaf ''binary_operator'' ''+'' 2, code_leaf ''identifier'' ''b'' 3],
                      edit = ws_leaf 2\<rparr>]\<rparr>]"
  by (simp add: evaluate_walk check_split_def find_targets_def ex_defs
      first_non_indent_def before_gap_def after_gap_def before_violation_def)

text \<open>
  C7, as the code has it. The bracket exception needs the opening bracket to be the resolved
  neighbour. For children \<^verbatim>\<open>(\<close>, \<^verbatim>\<open>+b\<close>, \<^verbatim>\<open>c\<close> the neighbour of the
  compound is the bracket, and the compound contributes no diagnostic before it. For
  children \<^verbatim>\<open>(\<close>, \<^verbatim>\<open>a\<close>, \<^verbatim>\<open>+b\<close> with a plain code leaf \<^verbatim>\<open>a\<close> and
  a compound whose leading leaf is an operator, the neighbour is \<^verbatim>\<open>a\<close> and the
  diagnostic before the operator is raised.
\<close>

theorem bracket_exception_needs_adjacency:
  "(segments parent = [br, cmp, c]
      \<and> endswith (name br) ''_bracket'' \<and> startswith (name br) ''start_''
      \<and> \<not> is_type br ''indent''
      \<and> is_code cmp \<and> \<not> is_whitespace cmp
      \<longrightarrow> scan_prev (segments parent) 1 = Some br
          \<and> before_check (segments parent) 1 (find_targets cmp) = []
          \<and> check_child (segments parent) 1 = after_check (segments parent) 1 (find_targets cmp))
   \<and> (segments parent' = [br', a, cmp] \<and> plain_code_leaf a
      \<and> is_code cmp \<and> \<not> is_whitespace cmp
      \<and> \<not> matches_target_tuples cmp target_elems \<and> segments cmp \<noteq> []
      \<and> 1 < length (iter_raw_seg cmp)
      \<and> matches_target_tuples (hd (iter_raw_seg cmp)) target_elems
      \<longrightarrow> scan_prev (segments parent') 2 = Some a
          \<and> before_check (segments parent') 2 (find_targets cmp)
              = [before_violation cmp (hd (iter_raw_seg cmp))]
          \<and> before_violation cmp (hd (iter_raw_seg cmp)) \<in> set (evaluate parent'))"
proof (intro conjI impI)
  assume h: "segments parent = [br, cmp, c]
      \<and> endswith (name br) ''_bracket'' \<and> startswith (name br) ''start_''
      \<and> \<not> is_type br ''indent''
      \<and> is_code cmp \<and> \<not> is_whitespace cmp"
  then show sp: "scan_prev (segments parent) 1 = Some br"
    by simp
  show bc: "before_check (segments parent) 1 (find_targets cmp) = []"
    using h sp by (simp add: before_check_def before_gap_def)
  show "check_child (segments parent) 1 = after_check (segments parent) 1 (find_targets cmp)"
    using h bc by (simp add: check_child_def Let_def)
next
  assume h: "segments parent' = [br', a, cmp] \<and> plain_code_leaf a
      \<and> is_code cmp \<and> \<not> is_whitespace cmp
      \<and> \<not> matches_target_tuples cmp target_elems \<and> segments cmp \<noteq> []
      \<and> 1 < length (iter_raw_seg cmp)
      \<and> matches_target_tuples (hd (iter_raw_seg cmp)) target_elems"
  have na: "\<not> is_type a ''indent''"
    using h by (simp add: plain_code_leaf_def)
  have cb: "check_before (find_targets cmp)"
    and ba: "before_anchor (find_targets cmp) = hd (iter_raw_seg cmp)"
    using h by (simp_all add: find_targets_leading)
  show sp: "scan_prev (segments parent') 2 = Some a"
    using h na by (simp add: scan_prev_find first_non_indent_def)
  show bc: "before_check (segments parent') 2 (find_targets cmp)
      = [before_violation cmp (hd (iter_raw_seg cmp))]"
    using h sp cb ba by (simp add: before_check_def before_gap_plain)
  have "check_split [a, br'] cmp [] = [before_violation cmp (hd (iter_raw_seg cmp))]"
    using h na cb ba
    by (simp add: check_split_def Let_def first_non_indent_Cons first_non_indent_Nil
        before_gap_plain)
  then show "before_violation cmp (hd (iter_raw_seg cmp)) \<in> set (evaluate parent')"
    using h by (simp add: evaluate_walk)
qed

theorem bracket_exception_needs_adjacency_witness:
  "scan_prev [code_leaf ''start_bracket'' ''('' 0,
       node ''expression'' [code_leaf ''binary_operator'' ''+'' 1, code_leaf ''identifier'' ''b'' 2],
       code_leaf ''end_bracket'' '')'' 3] 1 = Some (code_leaf ''start_bracket'' ''('' 0)
   \<and> before_check [code_leaf ''start_bracket'' ''('' 0,
       node ''expression'' [code_leaf ''binary_operator'' ''+'' 1, code_leaf ''identifier'' ''b'' 2],
       code_leaf ''end_bracket'' '')'' 3] 1
       (find_targets (node ''expression''
          [code_leaf ''binary_operator'' ''+'' 1, code_leaf ''identifier'' ''b'' 2])) = []
   \<and> scan_prev [code_leaf ''start_bracket'' ''('' 0, code_leaf ''identifier'' ''a'' 1,
       node ''expression'' [code_leaf ''binary_operator'' ''+'' 2, code_leaf ''identifier'' ''b'' 3]] 2
      = Some (code_leaf ''identifier'' ''a'' 1)
   \<and> before_violation
        (node ''expression'' [code_leaf ''binary_operator'' ''+'' 2, code_leaf ''identifier'' ''b'' 3])
        (code_leaf ''binary_operator'' ''+'' 2)
      \<in> set (evaluate (node ''bracketed''
          [code_leaf ''start_bracket'' ''('' 0, code_leaf ''identifier'' ''a'' 1,
           node ''expression''
             [code_leaf ''binary_operator'' ''+'' 2, code_leaf ''identifier'' ''b'' 3]]))"
  using bracket_exception_needs_adjacency [where parent = "node ''bracketed''
      [code_leaf ''start_bracket'' ''('' 0,
       node ''expression'' [code_leaf ''binary_operator'' ''+'' 1, code_leaf ''identifier'' ''b'' 2],
       code_leaf ''end_bracket'' '')'' 3]"
      and br = "code_leaf ''start_bracket'' ''('' 0"
      and c = "code_leaf ''end_bracket'' '')'' 3"
      and cmp = "node ''expression''
         [code_leaf ''binary_operator'' ''+'' 1, code_leaf ''identifier'' ''b'' 2]"
      and parent' = "node ''bracketed'' []" and br' = "code_leaf ''start_bracket'' ''('' 0"
      and a = "code_leaf ''identifier'' ''a'' 1"]
    bracket_exception_needs_adjacency [where parent = "node ''bracketed'' []"
      and br = "code_leaf ''start_bracket'' ''('' 0"
      and c = "code_leaf ''end_bracket'' '')'' 3"
      and parent' = "node ''bracketed''
          [code_leaf ''start_bracket'' ''('' 0, code_leaf ''identifier'' ''a'' 1,
           node ''expression''
             [code_leaf ''binary_operator'' ''+'' 2, code_leaf ''identifier'' ''b'' 3]]"
      and br' = "code_leaf ''start_bracket'' ''('' 0"
      and a = "code_leaf ''identifier'' ''a'' 1"
      and cmp = "node ''expression''
         [code_leaf ''binary_operator'' ''+'' 2, code_leaf ''identifier'' ''b'' 3]"]
  by (simp add: ex_defs)

section \<open>Applying the proposed fixes\<close>

lemma fix_of_member:
  "v \<in> set vs \<Longrightarrow> f \<in> set (lint_fixes v) \<Longrightarrow> f \<in> set (concat (map lint_fixes vs))"
  by auto

lemma before_violation_member:
  assumes "\<not> is_whitespace c" and "is_code c" and "check_before (find_targets c)"
    and "before_gap (first_non_indent rpre)"
  shows "before_violation c (before_anchor (find_targets c)) \<in> set (check_split rpre c post)"
  by (simp only: check_split_def Let_def assms if_True if_False simp_thms set_append set_simps)
     blast

lemma after_violation_member:
  assumes "\<not> is_whitespace c" and "is_code c" and "check_after (find_targets c)"
    and "first_non_indent post = Some n" and "after_gap (Some n)"
  shows "after_violation n (after_anchor (find_targets c)) \<in> set (check_split rpre c post)"
  by (simp only: check_split_def Let_def assms if_True if_False simp_thms set_append set_simps
      option.case)
     blast

lemma before_fix_in:
  assumes "\<not> is_whitespace c" and "is_code c" and "check_before (find_targets c)"
    and "before_gap (first_non_indent rpre)"
  shows "\<lparr>edit_type = ''create'', fix_anchor = c, edit = make_whitespace '' '' (pos_marker c)\<rparr>
           \<in> set (concat (map lint_fixes (check_split rpre c post)))"
  by (rule fix_of_member [OF before_violation_member [OF assms]]) (simp add: before_violation_def)

lemma after_fix_in:
  assumes "\<not> is_whitespace c" and "is_code c" and "check_after (find_targets c)"
    and "first_non_indent post = Some n" and "after_gap (Some n)"
  shows "\<lparr>edit_type = ''create'', fix_anchor = n, edit = make_whitespace '' '' (pos_marker n)\<rparr>
           \<in> set (concat (map lint_fixes (check_split rpre c post)))"
  by (rule fix_of_member [OF after_violation_member [OF assms]]) (simp add: after_violation_def)

lemma new_segments_before_nonempty:
  "\<lparr>edit_type = ''create'', fix_anchor = c, edit = e\<rparr> \<in> set fs \<Longrightarrow> new_segments_before fs c \<noteq> []"
  by (force simp: new_segments_before_def filter_empty_conv)

lemma after_part_nil:
  "((case r of None \<Rightarrow> [] | Some n \<Rightarrow> if after_gap (Some n) then [f n] else []) = [])
     = (\<not> after_gap r)"
  by (cases r) (simp_all add: after_gap_def)

lemma check_split_nil:
  "(check_split rpre c post = []) =
     (is_whitespace c \<or> \<not> is_code c
      \<or> (\<not> (check_before (find_targets c) \<and> before_gap (first_non_indent rpre))
         \<and> \<not> (check_after (find_targets c) \<and> after_gap (first_non_indent post))))"
  by (simp add: check_split_def Let_def after_part_nil)

lemma violation_whitespace_edits:
  "whitespace_edits (lint_fixes (before_violation c a))"
  "whitespace_edits (lint_fixes (after_violation n a))"
  by (simp_all add: whitespace_edits_def before_violation_def after_violation_def
      make_whitespace_def is_type_def)

lemma whitespace_edits_append:
  "whitespace_edits (xs @ ys) = (whitespace_edits xs \<and> whitespace_edits ys)"
  by (simp add: whitespace_edits_def)

lemma whitespace_edits_Nil: "whitespace_edits []"
  by (simp add: whitespace_edits_def)

lemma check_split_whitespace_edits:
  "whitespace_edits (concat (map lint_fixes (check_split rpre c post)))"
  by (simp add: check_split_def Let_def whitespace_edits_append whitespace_edits_Nil
      violation_whitespace_edits split: option.splits)

lemma walk_whitespace_edits: "whitespace_edits (concat (map lint_fixes (walk rpre segs)))"
proof (induction segs arbitrary: rpre)
  case Nil
  show ?case by (simp add: whitespace_edits_Nil)
next
  case (Cons c segs)
  then show ?case
    by (simp add: whitespace_edits_append check_split_whitespace_edits)
qed

lemma new_segments_whitespace:
  "whitespace_edits fs \<Longrightarrow> w \<in> set (new_segments_before fs c)
   \<Longrightarrow> is_whitespace w \<and> \<not> is_type w ''indent''"
  by (auto simp: whitespace_edits_def new_segments_before_def list_all_iff)

lemma apply_fixes_Nil: "apply_fixes fs [] = []"
  by (simp add: apply_fixes_def)

lemma apply_fixes_Cons:
  "apply_fixes fs (c # segs) = new_segments_before fs c @ c # apply_fixes fs segs"
  by (simp add: apply_fixes_def)

lemma apply_fixes_snoc:
  "apply_fixes fs (segs @ [c]) = apply_fixes fs segs @ new_segments_before fs c @ [c]"
  by (simp add: apply_fixes_def)

lemma apply_no_fixes: "apply_fixes [] segs = segs"
  by (induction segs) (simp_all add: apply_fixes_def new_segments_before_def)

lemma apply_fixes_keeps_children:
  assumes "whitespace_edits fs"
  shows "filter (\<lambda>s. \<not> is_whitespace s) (apply_fixes fs segs)
         = filter (\<lambda>s. \<not> is_whitespace s) segs"
proof (induction segs)
  case Nil
  show ?case by (simp add: apply_fixes_Nil)
next
  case (Cons c segs)
  have "filter (\<lambda>s. \<not> is_whitespace s) (new_segments_before fs c) = []"
    using new_segments_whitespace [OF assms] by (simp add: filter_empty_conv)
  with Cons show ?case by (simp add: apply_fixes_Cons)
qed

lemma walk_skip_whitespace:
  "\<forall>w \<in> set ws. is_whitespace w \<Longrightarrow> walk rpre (ws @ xs) = walk (rev ws @ rpre) xs"
proof (induction ws arbitrary: rpre)
  case Nil
  show ?case by simp
next
  case (Cons w ws)
  then have "check_split rpre w (ws @ xs) = []"
    by (simp add: check_split_def)
  with Cons show ?case by simp
qed

lemma first_non_indent_whitespace_first:
  assumes "ws \<noteq> []" and "\<forall>w \<in> set ws. is_whitespace w \<and> \<not> is_type w ''indent''"
  shows "\<exists>w. first_non_indent (ws @ xs) = Some w \<and> is_whitespace w"
  using assms by (cases ws) (simp_all add: first_non_indent_Cons)

lemma first_non_indent_rev_fixed:
  assumes "whitespace_edits fs"
  shows "first_non_indent (rev (apply_fixes fs pre)) = first_non_indent (rev pre)
         \<or> (\<exists>w. first_non_indent (rev (apply_fixes fs pre)) = Some w \<and> is_whitespace w)"
proof (induction pre rule: rev_induct)
  case Nil
  show ?case by (simp add: apply_fixes_Nil)
next
  case (snoc x xs)
  let ?N = "new_segments_before fs x"
  have r: "rev (apply_fixes fs (xs @ [x])) = x # (rev ?N @ rev (apply_fixes fs xs))"
    by (simp add: apply_fixes_snoc)
  show ?case
  proof (cases "is_type x ''indent''")
    case False
    then show ?thesis by (simp add: r first_non_indent_Cons)
  next
    case True
    show ?thesis
    proof (cases "?N = []")
      case True
      with \<open>is_type x ''indent''\<close> snoc show ?thesis
        by (simp add: r first_non_indent_Cons)
    next
      case False
      then have "rev ?N \<noteq> []" by simp
      moreover have "\<forall>w \<in> set (rev ?N). is_whitespace w \<and> \<not> is_type w ''indent''"
        using new_segments_whitespace [OF assms] by simp
      ultimately have "\<exists>w. first_non_indent (rev ?N @ rev (apply_fixes fs xs)) = Some w
          \<and> is_whitespace w"
        by (rule first_non_indent_whitespace_first)
      with \<open>is_type x ''indent''\<close> show ?thesis
        by (simp add: r first_non_indent_Cons)
    qed
  qed
qed

lemma first_non_indent_fixed:
  assumes "whitespace_edits fs"
  shows "(\<exists>w. first_non_indent (apply_fixes fs post) = Some w \<and> is_whitespace w)
         \<or> (first_non_indent (apply_fixes fs post) = first_non_indent post
            \<and> (\<forall>n. first_non_indent post = Some n \<longrightarrow> new_segments_before fs n = []))"
proof (induction post)
  case Nil
  show ?case by (simp add: apply_fixes_Nil first_non_indent_Nil)
next
  case (Cons x xs)
  let ?N = "new_segments_before fs x"
  show ?case
  proof (cases "?N = []")
    case False
    moreover have "\<forall>w \<in> set ?N. is_whitespace w \<and> \<not> is_type w ''indent''"
      using new_segments_whitespace [OF assms] by simp
    ultimately have "\<exists>w. first_non_indent (?N @ x # apply_fixes fs xs) = Some w \<and> is_whitespace w"
      by (rule first_non_indent_whitespace_first)
    then show ?thesis by (simp add: apply_fixes_Cons)
  next
    case True
    then have a: "apply_fixes fs (x # xs) = x # apply_fixes fs xs"
      by (simp add: apply_fixes_Cons)
    show ?thesis
    proof (cases "is_type x ''indent''")
      case True
      with Cons show ?thesis by (simp add: a first_non_indent_Cons)
    next
      case False
      with \<open>?N = []\<close> show ?thesis by (simp add: a first_non_indent_Cons)
    qed
  qed
qed

lemma gap_not_whitespace:
  "is_whitespace w \<Longrightarrow> \<not> before_gap (Some w)"
  "is_whitespace w \<Longrightarrow> \<not> after_gap (Some w)"
  by (simp_all add: before_gap_def after_gap_def)

lemma check_split_fixed:
  assumes ws: "whitespace_edits fs"
    and sub: "set (concat (map lint_fixes (check_split (rev pre) c post))) \<subseteq> set fs"
  shows "check_split (rev (new_segments_before fs c) @ rev (apply_fixes fs pre)) c
           (apply_fixes fs post) = []"
proof (cases "is_whitespace c \<or> \<not> is_code c")
  case True
  then show ?thesis by (auto simp: check_split_nil)
next
  case False
  let ?N = "new_segments_before fs c"
  let ?R = "rev (apply_fixes fs pre)"
  let ?X = "apply_fixes fs post"
  have b: "\<not> (check_before (find_targets c) \<and> before_gap (first_non_indent (rev ?N @ ?R)))"
  proof
    assume h: "check_before (find_targets c) \<and> before_gap (first_non_indent (rev ?N @ ?R))"
    show False
    proof (cases "?N = []")
      case True
      with h have bg: "before_gap (first_non_indent ?R)" by simp
      from first_non_indent_rev_fixed [OF ws, of pre]
      consider (same) "first_non_indent ?R = first_non_indent (rev pre)"
        | (white) w where "first_non_indent ?R = Some w" and "is_whitespace w"
        by blast
      then show False
      proof cases
        case same
        with bg have "before_gap (first_non_indent (rev pre))" by simp
        with False h have
          "\<lparr>edit_type = ''create'', fix_anchor = c, edit = make_whitespace '' '' (pos_marker c)\<rparr>
             \<in> set (concat (map lint_fixes (check_split (rev pre) c post)))"
          by (intro before_fix_in) simp_all
        with sub have
          "\<lparr>edit_type = ''create'', fix_anchor = c, edit = make_whitespace '' '' (pos_marker c)\<rparr>
             \<in> set fs"
          by (rule subsetD)
        then have "?N \<noteq> []" by (rule new_segments_before_nonempty)
        with True show False by simp
      next
        case white
        with bg show False by (simp add: gap_not_whitespace)
      qed
    next
      case False
      then have "rev ?N \<noteq> []" by simp
      moreover have "\<forall>w \<in> set (rev ?N). is_whitespace w \<and> \<not> is_type w ''indent''"
        using new_segments_whitespace [OF ws] by simp
      ultimately obtain w where "first_non_indent (rev ?N @ ?R) = Some w" and "is_whitespace w"
        using first_non_indent_whitespace_first by blast
      with h show False by (simp add: gap_not_whitespace)
    qed
  qed
  have a: "\<not> (check_after (find_targets c) \<and> after_gap (first_non_indent ?X))"
  proof
    assume h: "check_after (find_targets c) \<and> after_gap (first_non_indent ?X)"
    from first_non_indent_fixed [OF ws, of post]
    consider (white) w where "first_non_indent ?X = Some w" and "is_whitespace w"
      | (same) "first_non_indent ?X = first_non_indent post"
          and "\<forall>n. first_non_indent post = Some n \<longrightarrow> new_segments_before fs n = []"
      by blast
    then show False
    proof cases
      case white
      with h show False by (simp add: gap_not_whitespace)
    next
      case same
      with h have ag: "after_gap (first_non_indent post)" by simp
      then obtain n where n: "first_non_indent post = Some n"
        by (cases "first_non_indent post") (simp_all add: after_gap_def)
      with ag have "after_gap (Some n)" by simp
      with False h n have
        "\<lparr>edit_type = ''create'', fix_anchor = n, edit = make_whitespace '' '' (pos_marker n)\<rparr>
           \<in> set (concat (map lint_fixes (check_split (rev pre) c post)))"
        by (intro after_fix_in) simp_all
      with sub have
        "\<lparr>edit_type = ''create'', fix_anchor = n, edit = make_whitespace '' '' (pos_marker n)\<rparr>
           \<in> set fs"
        by (rule subsetD)
      then have "new_segments_before fs n \<noteq> []" by (rule new_segments_before_nonempty)
      with same(2) n show False by simp
    qed
  qed
  from a b show ?thesis by (simp add: check_split_nil)
qed

lemma walk_fixed:
  assumes ws: "whitespace_edits fs"
    and sub: "set (concat (map lint_fixes (walk (rev pre) rest))) \<subseteq> set fs"
  shows "walk (rev (apply_fixes fs pre)) (apply_fixes fs rest) = []"
  using sub
proof (induction rest arbitrary: pre)
  case Nil
  show ?case by (simp add: apply_fixes_Nil)
next
  case (Cons c post)
  let ?N = "new_segments_before fs c"
  let ?R = "rev (apply_fixes fs pre)"
  let ?X = "apply_fixes fs post"
  have w: "walk (rev pre) (c # post) = check_split (rev pre) c post @ walk (rev (pre @ [c])) post"
    by simp
  have sub1: "set (concat (map lint_fixes (check_split (rev pre) c post))) \<subseteq> set fs"
    and sub2: "set (concat (map lint_fixes (walk (rev (pre @ [c])) post))) \<subseteq> set fs"
    using Cons.prems unfolding w by (simp_all only: map_append concat_append set_append Un_subset_iff)
  have ih: "walk (rev (apply_fixes fs (pre @ [c]))) ?X = []"
    using sub2 by (rule Cons.IH)
  have r: "rev (apply_fixes fs (pre @ [c])) = c # (rev ?N @ ?R)"
    by (simp add: apply_fixes_snoc)
  have "\<forall>w \<in> set ?N. is_whitespace w"
    using new_segments_whitespace [OF ws] by blast
  then have "walk ?R (?N @ c # ?X) = walk (rev ?N @ ?R) (c # ?X)"
    by (rule walk_skip_whitespace)
  also have "\<dots> = check_split (rev ?N @ ?R) c ?X @ walk (c # (rev ?N @ ?R)) ?X"
    by simp
  also have "\<dots> = []"
    using check_split_fixed [OF ws sub1] ih unfolding r by simp
  finally show ?case
    by (simp add: apply_fixes_Cons)
qed

text \<open>
  C9. Take any parent segment, apply all the fixes the rule proposes for it (each new
  one-space whitespace segment goes immediately before its fix anchor in the parent's child
  list) and run the rule again on a segment with the resulting children: the sequence of
  diagnostics is empty, for the positions flagged before and for every other position.
  The children that are not whitespace are the same as before, in the same order.
\<close>

theorem fixes_remove_all_diagnostics:
  assumes "segments fixed = apply_fixes (proposed_fixes parent) (segments parent)"
  shows "evaluate fixed = []
         \<and> filter (\<lambda>s. \<not> is_whitespace s) (segments fixed)
           = filter (\<lambda>s. \<not> is_whitespace s) (segments parent)"
proof (cases "length (segments parent) \<le> 2")
  case True
  then have "proposed_fixes parent = []"
    by (simp add: proposed_fixes_def evaluate_walk)
  with assms True show ?thesis
    by (simp add: apply_no_fixes evaluate_walk)
next
  case False
  let ?fs = "concat (map lint_fixes (walk [] (segments parent)))"
  from False have p: "proposed_fixes parent = ?fs"
    by (simp add: proposed_fixes_def evaluate_walk)
  have "walk (rev (apply_fixes ?fs [])) (apply_fixes ?fs (segments parent)) = []"
    by (rule walk_fixed [OF walk_whitespace_edits]) simp
  then have "walk [] (segments fixed) = []"
    using assms by (simp add: p apply_fixes_Nil)
  then have e: "evaluate fixed = []"
    by (simp add: evaluate_walk)
  have "filter (\<lambda>s. \<not> is_whitespace s) (segments fixed)
        = filter (\<lambda>s. \<not> is_whitespace s) (segments parent)"
    unfolding assms p by (rule apply_fixes_keeps_children [OF walk_whitespace_edits])
  with e show ?thesis by simp
qed

theorem fixes_remove_all_diagnostics_witness:
  "apply_fixes
     (proposed_fixes (node ''expression''
        [code_leaf ''identifier'' ''a'' 0, code_leaf ''binary_operator'' ''+'' 1,
         code_leaf ''identifier'' ''b'' 2]))
     [code_leaf ''identifier'' ''a'' 0, code_leaf ''binary_operator'' ''+'' 1,
      code_leaf ''identifier'' ''b'' 2]
   = [code_leaf ''identifier'' ''a'' 0, ws_leaf 1, code_leaf ''binary_operator'' ''+'' 1,
      ws_leaf 2, code_leaf ''identifier'' ''b'' 2]
   \<and> evaluate (node ''expression''
      [code_leaf ''identifier'' ''a'' 0, ws_leaf 1, code_leaf ''binary_operator'' ''+'' 1,
       ws_leaf 2, code_leaf ''identifier'' ''b'' 2]) = []"
proof -
  let ?parent = "node ''expression''
      [code_leaf ''identifier'' ''a'' 0, code_leaf ''binary_operator'' ''+'' 1,
       code_leaf ''identifier'' ''b'' 2]"
  have w: "walk [] (segments ?parent) =
      [before_violation (code_leaf ''binary_operator'' ''+'' 1) (code_leaf ''binary_operator'' ''+'' 1),
       after_violation (code_leaf ''identifier'' ''b'' 2) (code_leaf ''binary_operator'' ''+'' 1)]"
    by (simp add: check_split_def find_targets_def ex_defs first_non_indent_def
        before_gap_def after_gap_def)
  have f: "proposed_fixes ?parent =
      [\<lparr>edit_type = ''create'', fix_anchor = code_leaf ''binary_operator'' ''+'' 1, edit = ws_leaf 1\<rparr>,
       \<lparr>edit_type = ''create'', fix_anchor = code_leaf ''identifier'' ''b'' 2, edit = ws_leaf 2\<rparr>]"
    unfolding proposed_fixes_def evaluate_walk w
    by (simp add: before_violation_def after_violation_def ex_defs)
  have a: "apply_fixes (proposed_fixes ?parent) (segments ?parent) =
      [code_leaf ''identifier'' ''a'' 0, ws_leaf 1, code_leaf ''binary_operator'' ''+'' 1,
       ws_leaf 2, code_leaf ''identifier'' ''b'' 2]"
    unfolding f by (simp add: apply_fixes_def new_segments_before_def ex_defs)
  have "segments (node ''expression''
      [code_leaf ''identifier'' ''a'' 0, ws_leaf 1, code_leaf ''binary_operator'' ''+'' 1,
       ws_leaf 2, code_leaf ''identifier'' ''b'' 2]) =
      apply_fixes (proposed_fixes ?parent) (segments ?parent)"
    unfolding a by (simp add: node_def)
  then have "evaluate (node ''expression''
      [code_leaf ''identifier'' ''a'' 0, ws_leaf 1, code_leaf ''binary_operator'' ''+'' 1,
       ws_leaf 2, code_leaf ''identifier'' ''b'' 2]) = []"
    by (rule fixes_remove_all_diagnostics [THEN conjunct1])
  moreover have "segments ?parent =
      [code_leaf ''identifier'' ''a'' 0, code_leaf ''binary_operator'' ''+'' 1,
       code_leaf ''identifier'' ''b'' 2]"
    by (simp add: node_def)
  ultimately show ?thesis
    using a by simp
qed

end
